theory Spec2Isabelle
  imports Main "HOL-Library.Multiset"
begin

section \<open>Strings and Python values\<close>

text \<open>
  A Python \<open>str\<close> is a sequence of Unicode code points; \<open>bytes\<close> (a line read from the
  upstream response) is a sequence of bytes, here an Isabelle \<open>string\<close>. The function
  \<open>u\<close> turns an ASCII literal into the \<open>str\<close> with the same characters.
\<close>

type_synonym pystr = "nat list"

definition u :: "string \<Rightarrow> pystr" where
  "u s = map of_char s"

section \<open>Database Setup\<close>

text \<open>
  The table \<open>chats(id, session_id, role, message, ts)\<close>. The list \<open>chats\<close> holds the
  rows in table (rowid) order; \<open>seq\<close> is the AUTOINCREMENT counter, the largest id
  handed out so far. \<open>ts\<close> defaults to CURRENT_TIMESTAMP, so every insert takes the
  clock's value \<open>now\<close> as an argument; timestamps are numbers here, ordered as
  the texts \<open>YYYY-MM-DD HH:MM:SS\<close> are. \<open>db_lock\<close> is the module's
  \<open>threading.Lock()\<close>: True while some \<open>with db_lock:\<close> block is running.
  The statements sent to the database engine are taken to succeed.
\<close>

record row =
  rid :: nat
  session_id :: pystr
  role :: pystr
  message :: pystr
  ts :: nat

record state =
  chats :: "row list"
  seq :: nat
  db_lock :: bool

text \<open>
  A call either returns or waits for ever. The model runs the one thread that
  serves the request: \<open>threading.Lock\<close> is not reentrant, so when that thread asks
  for a lock that is held, nobody is left to release it and the call never returns.
\<close>

datatype 'a outcome = Returns 'a | Blocks

definition with_db_lock :: "(state \<Rightarrow> state outcome) \<Rightarrow> state \<Rightarrow> state outcome" where
  "with_db_lock body st =
     (if db_lock st then Blocks
      else (case body (st\<lparr>db_lock := True\<rparr>) of
              Blocks \<Rightarrow> Blocks
            | Returns st' \<Rightarrow> Returns (st'\<lparr>db_lock := False\<rparr>)))"

text \<open>\<open>INSERT INTO chats(session_id, role, message) VALUES (?,?,?)\<close>\<close>

definition insert_chat :: "pystr \<Rightarrow> pystr \<Rightarrow> pystr \<Rightarrow> nat \<Rightarrow> state \<Rightarrow> state" where
  "insert_chat sid rl msg now st =
     st\<lparr>chats := chats st @
            [\<lparr>rid = Suc (seq st), session_id = sid, role = rl, message = msg, ts = now\<rparr>],
        seq := Suc (seq st)\<rparr>"

definition save_msg :: "pystr \<Rightarrow> pystr \<Rightarrow> pystr \<Rightarrow> nat \<Rightarrow> state \<Rightarrow> state outcome" where
  "save_msg sid rl msg now = with_db_lock (\<lambda>st. Returns (insert_chat sid rl msg now st))"

text \<open>
  \<open>ORDER BY ts DESC LIMIT 1\<close>: a row with the greatest \<open>ts\<close>. Among rows that share
  the greatest \<open>ts\<close> SQL leaves the choice to the engine; the model takes the first of
  them in table order, as a stable sort does.
\<close>

fun newest :: "row list \<Rightarrow> row option" where
  "newest [] = None"
| "newest (r # rs) =
     (case newest rs of
        None \<Rightarrow> Some r
      | Some b \<Rightarrow> if ts r < ts b then Some b else Some r)"

text \<open>\<open>SELECT id, message FROM chats WHERE session_id=? AND role='bot' ORDER BY ts DESC LIMIT 1\<close>\<close>

definition last_bot_msg :: "state \<Rightarrow> pystr \<Rightarrow> row option" where
  "last_bot_msg st sid =
     newest (filter (\<lambda>r. session_id r = sid \<and> role r = u ''bot'') (chats st))"

text \<open>\<open>UPDATE chats SET message=? WHERE id=?\<close>\<close>

definition update_message :: "pystr \<Rightarrow> nat \<Rightarrow> state \<Rightarrow> state" where
  "update_message msg i st =
     st\<lparr>chats := map (\<lambda>r. if rid r = i then r\<lparr>message := msg\<rparr> else r) (chats st)\<rparr>"

definition update_last_bot_message :: "pystr \<Rightarrow> pystr \<Rightarrow> nat \<Rightarrow> state \<Rightarrow> state outcome" where
  "update_last_bot_message sid new_content_chunk now =
     with_db_lock (\<lambda>st.
       case last_bot_msg st sid of
         Some found \<Rightarrow> Returns (update_message (message found @ new_content_chunk) (rid found) st)
       | None \<Rightarrow> save_msg sid (u ''bot'') new_content_chunk now st)"

section \<open>Transcript loading\<close>

text \<open>
  \<open>SELECT role, message FROM chats WHERE session_id=? ORDER BY ts ASC\<close>, followed by
  \<open>fetchall()\<close>. The rows come back whole here, so that their \<open>ts\<close> can be spoken
  about; \<open>load_msgs\<close> reads only \<open>role\<close> and \<open>message\<close>. Rows with equal \<open>ts\<close> keep
  their table order (\<open>sort_key\<close> is stable).
\<close>

definition load_ordered :: "state \<Rightarrow> pystr \<Rightarrow> row list" where
  "load_ordered st sid = sort_key ts (filter (\<lambda>r. session_id r = sid) (chats st))"

text \<open>
  \<open>re.sub(r'<think>[\s\S]*?</think>', '', message, flags=re.IGNORECASE)\<close>.
  \<open>ci_char p c\<close>: the character \<open>c\<close> matches the pattern literal \<open>p\<close> under
  IGNORECASE. For the literals of this pattern: \<open><\<close>, \<open>/\<close> and \<open>>\<close> match themselves
  only, a letter matches its two ASCII cases, and on a \<open>str\<close> pattern \<open>i\<close> also
  matches U+0130 and U+0131, \<open>k\<close> also U+212A (the characters whose lower case
  is \<open>i\<close> or \<open>k\<close>).
\<close>

definition ci_char :: "nat \<Rightarrow> nat \<Rightarrow> bool" where
  "ci_char p c =
     (c = p \<or> (97 \<le> p \<and> p \<le> 122 \<and> c + 32 = p) \<or>
      (p = 105 \<and> (c = 304 \<or> c = 305)) \<or> (p = 107 \<and> c = 8490))"

text \<open>\<open>match_ci p s\<close>: the literal \<open>p\<close> matches at the start of \<open>s\<close>; the rest of \<open>s\<close>.\<close>

fun match_ci :: "pystr \<Rightarrow> pystr \<Rightarrow> pystr option" where
  "match_ci [] s = Some s"
| "match_ci (p # ps) [] = None"
| "match_ci (p # ps) (c # cs) = (if ci_char p c then match_ci ps cs else None)"

text \<open>
  \<open>[\s\S]*?</think>\<close>: any characters, as few as possible, up to a closing tag;
  the text after the first closing tag.
\<close>

fun after_close :: "pystr \<Rightarrow> pystr option" where
  "after_close [] = None"
| "after_close (c # cs) =
     (case match_ci (u ''</think>'') (c # cs) of
        Some rest \<Rightarrow> Some rest
      | None \<Rightarrow> after_close cs)"

lemma match_ci_length: "match_ci p s = Some r \<Longrightarrow> length r \<le> length s"
  by (induction p s rule: match_ci.induct) (auto split: if_splits)

lemma after_close_length: "after_close s = Some r \<Longrightarrow> length r \<le> length s"
  by (induction s) (auto split: option.splits dest: match_ci_length)

text \<open>
  The substitution scans from the left: where the pattern matches, the match is
  dropped and the scan goes on behind it; elsewhere the character is kept.
\<close>

function think_sub :: "pystr \<Rightarrow> pystr" where
  "think_sub [] = []"
| "think_sub (c # cs) =
     (if ci_char 60 c then
        (case match_ci (u ''think>'') cs of
           None \<Rightarrow> c # think_sub cs
         | Some body \<Rightarrow>
             (case after_close body of
                None \<Rightarrow> c # think_sub cs
              | Some rest \<Rightarrow> think_sub rest))
      else c # think_sub cs)"
  by pat_completeness auto
termination
proof (relation "measure length")
  show "wf (measure length)" by simp
next
  fix c :: nat and cs body rest :: pystr
  assume "match_ci (u ''think>'') cs = Some body" and "after_close body = Some rest"
  then have "length rest \<le> length cs"
    using match_ci_length after_close_length by (meson order_trans)
  then show "(rest, c # cs) \<in> measure length" by simp
qed simp_all

text \<open>\<open>str.strip()\<close>: the characters for which \<open>str.isspace\<close> holds are removed at both ends.\<close>

definition py_isspace :: "nat \<Rightarrow> bool" where
  "py_isspace c =
     ((9 \<le> c \<and> c \<le> 13) \<or> (28 \<le> c \<and> c \<le> 32) \<or> c = 133 \<or> c = 160 \<or> c = 5760 \<or>
      (8192 \<le> c \<and> c \<le> 8202) \<or> c = 8232 \<or> c = 8233 \<or> c = 8239 \<or> c = 8287 \<or> c = 12288)"

definition strip :: "pystr \<Rightarrow> pystr" where
  "strip s = rev (dropWhile py_isspace (rev (dropWhile py_isspace s)))"

definition clean_message :: "pystr \<Rightarrow> pystr" where
  "clean_message msg = strip (think_sub msg)"

text \<open>
  The words of the specification for a thinking block: an opening tag and a closing
  tag are the texts \<open><think>\<close> and \<open></think>\<close> in any case; the block is an
  opening tag, any content, and a closing tag.
\<close>

definition opening_tag :: "pystr \<Rightarrow> bool" where
  "opening_tag t = list_all2 ci_char (u ''<think>'') t"

definition closing_tag :: "pystr \<Rightarrow> bool" where
  "closing_tag t = list_all2 ci_char (u ''</think>'') t"

text \<open>An entry \<open>{'role': ..., 'content': ...}\<close> of the chat history.\<close>

record entry =
  e_role :: pystr
  content :: pystr

definition remap_role :: "pystr \<Rightarrow> pystr" where
  "remap_role rl = (if rl = u ''bot'' then u ''assistant'' else rl)"

text \<open>The loop of \<open>load_msgs\<close> over the fetched rows, \<open>messages\<close> being the list built so far.\<close>

fun load_loop :: "row list \<Rightarrow> entry list \<Rightarrow> entry list" where
  "load_loop [] messages = messages"
| "load_loop (r # rows) messages =
     (if clean_message (message r) \<noteq> []
      then load_loop rows
             (messages @ [\<lparr>e_role = remap_role (role r), content = clean_message (message r)\<rparr>])
      else load_loop rows messages)"

definition load_msgs :: "state \<Rightarrow> pystr \<Rightarrow> entry list" where
  "load_msgs st sid = load_loop (load_ordered st sid) []"

section \<open>API Integration Section\<close>

text \<open>
  The values \<open>json.loads\<close> returns: \<open>None\<close>, \<open>bool\<close>, \<open>int\<close>, \<open>float\<close>, \<open>str\<close>,
  \<open>list\<close> and \<open>dict\<close> (with \<open>str\<close> keys, looked up with \<open>map_of\<close>). A float is the
  double \<open>m * 2^e\<close>, or one of the literals \<open>Infinity\<close>, \<open>-Infinity\<close> and \<open>NaN\<close> that
  \<open>json.loads\<close> accepts.
\<close>

datatype pyfloat = Finite int int | Infinity bool | NaN

datatype pyval =
    PNone
  | PBool bool
  | PInt int
  | PFloat pyfloat
  | PStr pystr
  | PList "pyval list"
  | PDict "(pystr \<times> pyval) list"

text \<open>The truth value of \<open>if delta:\<close>.\<close>

fun truthy :: "pyval \<Rightarrow> bool" where
  "truthy PNone = False"
| "truthy (PBool b) = b"
| "truthy (PInt n) = (n \<noteq> 0)"
| "truthy (PFloat (Finite m e)) = (m \<noteq> 0)"
| "truthy (PFloat (Infinity sg)) = True"
| "truthy (PFloat NaN) = True"
| "truthy (PStr s) = (s \<noteq> [])"
| "truthy (PList xs) = (xs \<noteq> [])"
| "truthy (PDict d) = (d \<noteq> [])"

fun is_dict :: "pyval \<Rightarrow> bool" where
  "is_dict (PDict d) = True"
| "is_dict v = False"

fun type_name :: "pyval \<Rightarrow> pystr" where
  "type_name PNone = u ''NoneType''"
| "type_name (PBool b) = u ''bool''"
| "type_name (PInt n) = u ''int''"
| "type_name (PFloat f) = u ''float''"
| "type_name (PStr s) = u ''str''"
| "type_name (PList xs) = u ''list''"
| "type_name (PDict d) = u ''dict''"

text \<open>
  An exception with its message \<open>str(e)\<close>. \<open>gen\<close> tells a
  \<open>requests.exceptions.RequestException\<close> from every other \<open>Exception\<close>.
\<close>

datatype exc = RequestException pystr | OtherException pystr

fun str_exc :: "exc \<Rightarrow> pystr" where
  "str_exc (RequestException m) = m"
| "str_exc (OtherException m) = m"

text \<open>\<open>AttributeError\<close> of \<open>data_json.get\<close> on a value that is not a \<open>dict\<close>.\<close>

definition no_attribute_get :: "pyval \<Rightarrow> exc" where
  "no_attribute_get v =
     OtherException ([39] @ type_name v @ [39] @ u '' object has no attribute '' @ [39] @ u ''get'' @ [39])"

text \<open>\<open>TypeError\<close> of \<open>buffer += chunk_text\<close> on a chunk that is not a \<open>str\<close>.\<close>

definition cannot_concatenate :: "pyval \<Rightarrow> exc" where
  "cannot_concatenate v =
     OtherException (u ''can only concatenate str (not '' @ [34] @ type_name v @ [34] @ u '') to str'')"

text \<open>
  The library functions the code calls and that are not part of it:
  \<open>bytes.decode('utf-8')\<close>, which returns the text or raises \<open>UnicodeDecodeError\<close>;
  \<open>json.loads\<close>, which returns the value or raises \<open>JSONDecodeError\<close> (\<open>None\<close> here);
  and \<open>str()\<close> of a value that is not a \<open>str\<close>, as an f-string formats it.
\<close>

record pylib =
  decode_utf8 :: "string \<Rightarrow> exc + pystr"
  json_loads :: "pystr \<Rightarrow> pyval option"
  str_of :: "pyval \<Rightarrow> pystr"

text \<open>
  What \<open>claude_session.post(...)\<close> and the reading of its response do: the call
  raises, or it returns a response. \<open>raise_for_status()\<close> raises for a non-success
  status (\<open>bad_status\<close>); \<open>iter_lines()\<close> delivers the lines \<open>body_lines\<close> and then
  either ends or raises (\<open>read_error\<close>).
\<close>

datatype upstream =
    PostRaises exc
  | Response (bad_status: "exc option") (body_lines: "string list") (read_error: "exc option")

text \<open>The fragment of \<open>except Exception as e\<close>; U+1F6A8 is the alert glyph.\<close>

definition error_marker :: pystr where
  "error_marker = [0x1F6A8] @ u '' Claude API Error:''"

definition error_text :: "exc \<Rightarrow> pystr" where
  "error_text e = error_marker @ u '' '' @ str_exc e"

definition error_fragment :: "exc \<Rightarrow> pyval" where
  "error_fragment e = PStr (error_text e)"

text \<open>
  One turn of the loop over \<open>r.iter_lines()\<close>: go on with the next line, yield a
  delta, or leave the loop with an exception that the inner \<open>try\<close> does not catch.
\<close>

datatype step = Continue | Yield pyval | Raise exc

definition on_line :: "pylib \<Rightarrow> string \<Rightarrow> step" where
  "on_line lib line =
     (if line = [] then Continue
      else case decode_utf8 lib line of
        Inl e \<Rightarrow> Raise e
      | Inr decoded0 \<Rightarrow>
          (let decoded = (if take 6 decoded0 = u ''data: '' then drop 6 decoded0 else decoded0)
           in if decoded = u ''[DONE]'' then Continue
              else case json_loads lib decoded of
                None \<Rightarrow> Continue
              | Some (PDict d) \<Rightarrow>
                  (if map_of d (u ''type'') = Some (PStr (u ''text-delta''))
                   then (let delta = (case map_of d (u ''delta'') of None \<Rightarrow> PStr [] | Some v \<Rightarrow> v)
                         in if truthy delta then Yield delta else Continue)
                   else Continue)
              | Some data_json \<Rightarrow> Raise (no_attribute_get data_json)))"

fun iter_lines :: "pylib \<Rightarrow> string list \<Rightarrow> exc option \<Rightarrow> pyval list" where
  "iter_lines lib [] None = []"
| "iter_lines lib [] (Some e) = [error_fragment e]"
| "iter_lines lib (line # lines) rd =
     (case on_line lib line of
        Continue \<Rightarrow> iter_lines lib lines rd
      | Yield delta \<Rightarrow> delta # iter_lines lib lines rd
      | Raise e \<Rightarrow> [error_fragment e])"

text \<open>
  \<open>stream_claude_sonnet\<close>: the chat histories posted to \<open>claude_url\<close> and the
  fragments yielded. \<open>net\<close> is the upstream's answer to a posted history (the payload
  wraps each entry's content and role; its random ids are left out).
\<close>

definition stream_claude_sonnet ::
  "pylib \<Rightarrow> (entry list \<Rightarrow> upstream) \<Rightarrow> entry list \<Rightarrow> entry list list \<times> pyval list" where
  "stream_claude_sonnet lib net chat_history =
     ([chat_history],
      case net chat_history of
        PostRaises e \<Rightarrow> [error_fragment e]
      | Response bad lines rd \<Rightarrow>
          (case bad of
             Some e \<Rightarrow> [error_fragment e]
           | None \<Rightarrow> iter_lines lib lines rd))"

section \<open>Flask Routes\<close>

definition supported_model :: pystr where
  "supported_model = u ''claude-sonnet-3.7''"

text \<open>The three error messages of \<open>gen\<close>; U+1F6AB and U+1F916 are their glyphs.\<close>

definition not_supported_msg :: "pystr \<Rightarrow> pystr" where
  "not_supported_msg model =
     [0x1F6AB] @ u '' The selected model '' @ [39] @ model @ [39] @ u '' is not supported.''"

definition connection_error_msg :: "pystr \<Rightarrow> exc \<Rightarrow> pystr" where
  "connection_error_msg model e =
     [0x1F916] @ u '' **Connection Error**\<newline>\<newline>I couldn'' @ [39] @
     u ''t reach the AI service for model '' @ [39] @ model @ [39] @ u ''. Details: '' @ str_exc e"

definition system_error_msg :: "exc \<Rightarrow> pystr" where
  "system_error_msg e =
     [0x1F916] @ u '' **System Error**\<newline>\<newline>Unexpected error: '' @ str_exc e"

fun except_msg :: "pystr \<Rightarrow> exc \<Rightarrow> pystr" where
  "except_msg model (RequestException m) = connection_error_msg model (RequestException m)"
| "except_msg model (OtherException m) = system_error_msg (OtherException m)"

text \<open>
  The loop \<open>for chunk_text in ...: buffer += chunk_text; yield chunk_text\<close>: the
  fragments yielded, and the buffer at the end or the exception that ended the loop.
\<close>

fun relay :: "pystr \<Rightarrow> pyval list \<Rightarrow> pystr list \<times> (exc + pystr)" where
  "relay buffer [] = ([], Inr buffer)"
| "relay buffer (PStr chunk_text # chunks) =
     (case relay (buffer @ chunk_text) chunks of (out, r) \<Rightarrow> (chunk_text # out, r))"
| "relay buffer (chunk # chunks) = ([], Inl (cannot_concatenate chunk))"

text \<open>
  The \<open>try\<close> statement of \<open>gen\<close>: the histories posted upstream, the fragments
  yielded to the caller and the buffer when the statement is left.
\<close>

record streamed =
  posted :: "entry list list"
  yielded :: "pystr list"
  buffer :: pystr

definition gen_stream :: "pylib \<Rightarrow> (entry list \<Rightarrow> upstream) \<Rightarrow> pystr \<Rightarrow> entry list \<Rightarrow> streamed" where
  "gen_stream lib net model chat_history =
     (if model = supported_model then
        (case stream_claude_sonnet lib net chat_history of
           (posts, chunks) \<Rightarrow>
             (case relay [] chunks of
                (out, Inr buf) \<Rightarrow> \<lparr>posted = posts, yielded = out, buffer = buf\<rparr>
              | (out, Inl e) \<Rightarrow>
                  \<lparr>posted = posts, yielded = out @ [except_msg model e],
                   buffer = except_msg model e\<rparr>))
      else \<lparr>posted = [], yielded = [not_supported_msg model],
            buffer = not_supported_msg model\<rparr>)"

text \<open>The end of \<open>gen\<close>: \<open>if buffer: ...\<close>.\<close>

definition gen_commit :: "pystr \<Rightarrow> pystr \<Rightarrow> pystr \<Rightarrow> nat \<Rightarrow> state \<Rightarrow> state outcome" where
  "gen_commit action sid buf now st =
     (if buf \<noteq> [] then
        (if action = u ''continue'' then update_last_bot_message sid buf now st
         else save_msg sid (u ''bot'') buf now st)
      else Returns st)"

record gen_result =
  stream :: streamed
  store :: "state outcome"

definition gen ::
  "pylib \<Rightarrow> (entry list \<Rightarrow> upstream) \<Rightarrow> pystr \<Rightarrow> pystr \<Rightarrow> pystr \<Rightarrow> entry list \<Rightarrow> nat \<Rightarrow> state
     \<Rightarrow> gen_result" where
  "gen lib net model action sid chat_history now st =
     (let s = gen_stream lib net model chat_history
      in \<lparr>stream = s, store = gen_commit action sid (buffer s) now st\<rparr>)"

text \<open>
  The JSON body of a \<open>POST /chat\<close>, an object. A field is absent (\<open>None\<close>) or has
  the type of the interface: \<open>session\<close>, \<open>model\<close>, \<open>action\<close> and \<open>text\<close> are strings,
  \<open>fileInfo\<close> is an object. Bodies that are not JSON objects and fields of other
  types are not covered.
\<close>

record request =
  req_session :: "pystr option"
  req_model :: "pystr option"
  req_action :: "pystr option"
  req_text :: "pystr option"
  req_fileInfo :: "(pystr \<times> pyval) list option"

text \<open>
  A response: \<open>Response(body, status=...)\<close>, or the streamed
  \<open>Response(stream_with_context(gen()), mimetype="text/plain; charset=utf-8")\<close> with
  the fragments \<open>gen\<close> yields.
\<close>

datatype http_response = Plain nat pystr | Streaming "pystr list"

record chat_result =
  response :: http_response
  requests_posted :: "entry list list"
  db :: "state outcome"

text \<open>\<open>KeyError\<close> of \<open>d[k]\<close>; its \<open>str\<close> is the key in quotes.\<close>

definition key_error :: "pystr \<Rightarrow> exc" where
  "key_error k = OtherException ([39] @ k @ [39])"

text \<open>\<open>except Exception as e: return Response(f"Server error: {str(e)}", status=500)\<close>\<close>

definition server_error :: "exc \<Rightarrow> state \<Rightarrow> chat_result" where
  "server_error e st =
     \<lparr>response = Plain 500 (u ''Server error: '' @ str_exc e), requests_posted = [],
      db = Returns st\<rparr>"

definition format_value :: "pylib \<Rightarrow> pyval \<Rightarrow> pystr" where
  "format_value lib v = (case v of PStr s \<Rightarrow> s | _ \<Rightarrow> str_of lib v)"

text \<open>\<open>f"[File: {file_info['name']}]\n{text}" if file_info else text\<close>\<close>

definition user_message_to_save ::
  "pylib \<Rightarrow> (pystr \<times> pyval) list option \<Rightarrow> pystr \<Rightarrow> exc + pystr" where
  "user_message_to_save lib file_info txt =
     (case file_info of
        None \<Rightarrow> Inr txt
      | Some fi \<Rightarrow>
          (if fi = [] then Inr txt
           else case map_of fi (u ''name'') of
             None \<Rightarrow> Inl (key_error (u ''name''))
           | Some v \<Rightarrow> Inr (u ''[File: '' @ format_value lib v @ u '']\<newline>'' @ txt)))"

definition continue_prompt :: entry where
  "continue_prompt =
     \<lparr>e_role = u ''user'',
      content =
        u ''Please continue generating the response precisely from where you left off. '' @
        u ''If it is code, ensure it'' @ [39] @ u ''s a valid continuation and start with a '' @
        u ''comment indicating it'' @ [39] @ u ''s a continuation (e.g., '' @ [39] @
        u ''# Part 2'' @ [39] @ u '', '' @ [39] @ u ''// Continued...'' @ [39] @ u ''). '' @
        u ''Do not add any introductory phrases or repeat previous content.''\<rparr>"

definition respond :: "gen_result \<Rightarrow> chat_result" where
  "respond g =
     \<lparr>response = Streaming (yielded (stream g)), requests_posted = posted (stream g),
      db = store g\<rparr>"

text \<open>
  \<open>chat\<close>. \<open>t_user\<close> and \<open>t_bot\<close> are the clock's values when the user message and
  when the reply are written.
\<close>

definition chat ::
  "pylib \<Rightarrow> (entry list \<Rightarrow> upstream) \<Rightarrow> request \<Rightarrow> nat \<Rightarrow> nat \<Rightarrow> state \<Rightarrow> chat_result outcome" where
  "chat lib net data t_user t_bot st =
     (case req_session data of
        None \<Rightarrow> Returns (server_error (key_error (u ''session'')) st)
      | Some sid \<Rightarrow>
          (let model = (case req_model data of None \<Rightarrow> u ''claude-sonnet-3.7'' | Some m \<Rightarrow> m);
               action = (case req_action data of None \<Rightarrow> u ''chat'' | Some a \<Rightarrow> a)
           in if action = u ''chat'' then
                (case req_text data of
                   None \<Rightarrow> Returns (server_error (key_error (u ''text'')) st)
                 | Some txt \<Rightarrow>
                     (case user_message_to_save lib (req_fileInfo data) txt of
                        Inl e \<Rightarrow> Returns (server_error e st)
                      | Inr msg \<Rightarrow>
                          (case save_msg sid (u ''user'') msg t_user st of
                             Blocks \<Rightarrow> Blocks
                           | Returns st1 \<Rightarrow>
                               Returns (respond
                                 (gen lib net model action sid (load_msgs st1 sid) t_bot st1)))))
              else if action = u ''continue'' then
                Returns (respond
                  (gen lib net model action sid (load_msgs st sid @ [continue_prompt]) t_bot st))
              else Returns \<lparr>response = Plain 400 (u ''Invalid action.''), requests_posted = [],
                             db = Returns st\<rparr>))"

section \<open>Sample inputs\<close>

text \<open>
  A stand-in for the library on the lines of the examples. A line of ASCII bytes
  decodes to the same characters; a line with a byte above \<open>0x7F\<close> is refused, as
  Python refuses the lone byte \<open>0xFF\<close>. \<open>json.loads\<close> is the table of the texts the
  examples send, every other text counting as malformed. No example formats a value
  that is not a \<open>str\<close>, so \<open>str_of\<close> is a placeholder.
\<close>

definition sample_decode :: "string \<Rightarrow> exc + pystr" where
  "sample_decode line =
     (if list_all (\<lambda>c. (of_char c :: nat) < 128) line then Inr (map of_char line)
      else Inl (OtherException (u ''invalid start byte'')))"

definition sample_loads :: "pystr \<Rightarrow> pyval option" where
  \<open>sample_loads s =
     (if s = u ''{"type":"text-delta","delta":"Hel"}''
        then Some (PDict [(u ''type'', PStr (u ''text-delta'')), (u ''delta'', PStr (u ''Hel''))])
      else if s = u ''{"type":"text-delta","delta":"lo"}''
        then Some (PDict [(u ''type'', PStr (u ''text-delta'')), (u ''delta'', PStr (u ''lo''))])
      else if s = u ''{"type":"text-delta","delta":5}''
        then Some (PDict [(u ''type'', PStr (u ''text-delta'')), (u ''delta'', PInt 5)])
      else if s = u ''{"type":"start"}''
        then Some (PDict [(u ''type'', PStr (u ''start''))])
      else if s = u ''5'' then Some (PInt 5)
      else None)\<close>

definition sample_lib :: pylib where
  "sample_lib =
     \<lparr>decode_utf8 = sample_decode, json_loads = sample_loads, str_of = (\<lambda>v. type_name v)\<rparr>"

text \<open>The upstream of the specification's example, one that cannot be reached, and one
  that sends a line which is not UTF-8 before a delta.\<close>

definition hello_net :: "entry list \<Rightarrow> upstream" where
  \<open>hello_net h =
     Response None
       [''data: {"type":"text-delta","delta":"Hel"}'', [],
        ''data: {"type":"text-delta","delta":"lo"}'', ''data: [DONE]'']
       None\<close>

definition silent_net :: "entry list \<Rightarrow> upstream" where
  \<open>silent_net h = Response None [''data: {"type":"start"}'', ''data: [DONE]''] None\<close>

definition down_net :: "entry list \<Rightarrow> upstream" where
  "down_net h = PostRaises (RequestException (u ''Connection refused''))"

definition garbled_net :: "entry list \<Rightarrow> upstream" where
  \<open>garbled_net h =
     Response None [[CHR 0xFF], ''data: {"type":"text-delta","delta":"Hel"}''] None\<close>

text \<open>A fresh database, and one that holds a single user message of session \<open>s1\<close>.\<close>

definition empty_db :: state where
  "empty_db = \<lparr>chats = [], seq = 0, db_lock = False\<rparr>"

definition one_user_db :: state where
  "one_user_db =
     \<lparr>chats = [\<lparr>rid = 1, session_id = u ''s1'', role = u ''user'', message = u ''hi'', ts = 5\<rparr>],
      seq = 1, db_lock = False\<rparr>"

text \<open>
  Session \<open>s1\<close> with a bot message that carries a thinking block, a bot message that
  is nothing but a thinking block, and a user message; a row of another session lies
  between them.
\<close>

definition think_db :: state where
  "think_db =
     \<lparr>chats =
        [\<lparr>rid = 1, session_id = u ''s1'', role = u ''bot'',
          message = u ''<think>secret</think>visible'', ts = 3\<rparr>,
         \<lparr>rid = 2, session_id = u ''s2'', role = u ''user'', message = u ''other'', ts = 4\<rparr>,
         \<lparr>rid = 3, session_id = u ''s1'', role = u ''bot'',
          message = u '' <THINK>only\<newline>this</think> '', ts = 4\<rparr>,
         \<lparr>rid = 4, session_id = u ''s1'', role = u ''user'', message = u ''hi'', ts = 2\<rparr>],
      seq = 4, db_lock = False\<rparr>"

text \<open>Session \<open>s1\<close> with a user message and a bot message.\<close>

definition bot_db :: state where
  "bot_db =
     \<lparr>chats =
        [\<lparr>rid = 1, session_id = u ''s1'', role = u ''user'', message = u ''hi'', ts = 5\<rparr>,
         \<lparr>rid = 2, session_id = u ''s1'', role = u ''bot'', message = u ''Hi'', ts = 6\<rparr>],
      seq = 2, db_lock = False\<rparr>"

text \<open>Requests of session \<open>s1\<close>.\<close>

definition chat_req :: request where
  "chat_req =
     \<lparr>req_session = Some (u ''s1''), req_model = Some (u ''claude-sonnet-3.7''),
      req_action = Some (u ''chat''), req_text = Some (u ''hello''), req_fileInfo = None\<rparr>"

definition continue_req :: request where
  "continue_req = chat_req\<lparr>req_action := Some (u ''continue''), req_text := None\<rparr>"

section \<open>Properties of the store\<close>

lemma save_msg_free:
  "\<not> db_lock st \<Longrightarrow> save_msg sid rl msg now st = Returns (insert_chat sid rl msg now st)"
  by (simp add: save_msg_def with_db_lock_def insert_chat_def)

lemma save_msg_held: "db_lock st \<Longrightarrow> save_msg sid rl msg now st = Blocks"
  by (simp add: save_msg_def with_db_lock_def)

lemma update_last_no_bot:
  assumes "\<not> db_lock st" and "last_bot_msg st sid = None"
  shows "update_last_bot_message sid d now st = Blocks"
proof -
  have "last_bot_msg (st\<lparr>db_lock := True\<rparr>) sid = None"
    using assms(2) by (simp add: last_bot_msg_def)
  moreover have "save_msg sid (u ''bot'') d now (st\<lparr>db_lock := True\<rparr>) = Blocks"
    by (rule save_msg_held) simp
  ultimately show ?thesis
    using assms(1) by (simp add: update_last_bot_message_def with_db_lock_def)
qed

lemma update_last_found:
  assumes "\<not> db_lock st" and "last_bot_msg st sid = Some found"
  shows "update_last_bot_message sid d now st =
           Returns (update_message (message found @ d) (rid found) st)"
proof -
  have "last_bot_msg (st\<lparr>db_lock := True\<rparr>) sid = Some found"
    using assms(2) by (simp add: last_bot_msg_def)
  then show ?thesis
    using assms(1) by (simp add: update_last_bot_message_def with_db_lock_def update_message_def)
qed

text \<open>
  C1. \<open>update_last(S, d)\<close> should append \<open>d\<close> to the most recent bot message of \<open>S\<close>
  and, when \<open>S\<close> has no bot message, return after appending a new bot message with
  content \<open>d\<close>. For a session without a bot message the code does not return:
  \<open>update_last_bot_message\<close> calls \<open>save_msg\<close> while it holds \<open>db_lock\<close>, and
  \<open>save_msg\<close> waits for the same lock. Shown on a fresh database and on a database
  holding one user message of the session.
\<close>

theorem update_last_bot_message_no_bot_blocks:
  "update_last_bot_message (u ''s1'') (u ''more'') 7 empty_db = Blocks \<and>
   update_last_bot_message (u ''s1'') (u ''more'') 7 one_user_db = Blocks"
  by (simp add: update_last_no_bot last_bot_msg_def empty_db_def one_user_db_def u_def)

section \<open>Properties of the transcript loader\<close>

lemma load_loop_eq:
  "load_loop rows acc =
     acc @ map (\<lambda>r. \<lparr>e_role = remap_role (role r), content = clean_message (message r)\<rparr>)
             (filter (\<lambda>r. clean_message (message r) \<noteq> []) rows)"
  by (induction rows arbitrary: acc) auto

lemma match_ci_append: "match_ci p s = Some [] \<Longrightarrow> match_ci p (s @ t) = Some t"
  by (induction p s rule: match_ci.induct) (auto split: if_splits)

lemma after_close_hit:
  assumes "match_ci (u ''</think>'') cl = Some []"
  shows "after_close (cl @ rest) = Some rest"
proof (cases cl)
  case Nil
  with assms show ?thesis by (simp add: u_def)
next
  case (Cons c cs)
  have "match_ci (u ''</think>'') (cl @ rest) = Some rest"
    using assms by (rule match_ci_append)
  with Cons show ?thesis by simp
qed

lemma strip_split: "rev (dropWhile P (rev xs)) @ rev (takeWhile P (rev xs)) = xs"
  by (metis rev_append rev_rev_ident takeWhile_dropWhile_id)

lemma strip_ends:
  assumes "strip s \<noteq> []"
  shows "\<not> py_isspace (hd (strip s)) \<and> \<not> py_isspace (last (strip s))"
proof -
  define d where "d = dropWhile py_isspace s"
  define e where "e = dropWhile py_isspace (rev d)"
  have se: "strip s = rev e" by (simp add: strip_def d_def e_def)
  with assms have ne: "e \<noteq> []" by simp
  then have "\<not> py_isspace (hd e)" unfolding e_def by (rule hd_dropWhile)
  then have l: "\<not> py_isspace (last (strip s))" using ne by (simp add: se last_rev)
  have "rev e @ rev (takeWhile py_isspace (rev d)) = d"
    unfolding e_def by (rule strip_split)
  then have "hd d = hd (rev e)" and "d \<noteq> []" using ne by (metis hd_append2 rev_is_Nil_conv, auto)
  moreover from \<open>d \<noteq> []\<close> have "\<not> py_isspace (hd d)" unfolding d_def by (rule hd_dropWhile)
  ultimately show ?thesis using l by (simp add: se)
qed

lemma load_msgs_eq:
  "load_msgs st sid =
     map (\<lambda>r. \<lparr>e_role = remap_role (role r), content = clean_message (message r)\<rparr>)
       (filter (\<lambda>r. clean_message (message r) \<noteq> []) (load_ordered st sid))"
  by (simp add: load_msgs_def load_loop_eq)

lemmas eval_clean = clean_message_def strip_def py_isspace_def u_def ci_char_def

lemma load_ordered_think_db:
  "load_ordered think_db (u ''s1'') = [chats think_db ! 3, chats think_db ! 0, chats think_db ! 2]"
  by (simp add: load_ordered_def think_db_def u_def)

lemma match_ci_iff: "(match_ci p s = Some r) = (\<exists>t. s = t @ r \<and> list_all2 ci_char p t)"
proof (induction p s rule: match_ci.induct)
  case (1 s)
  then show ?case by auto
next
  case (2 p ps)
  then show ?case by (auto simp: list_all2_Cons1)
next
  case (3 p ps c cs)
  then show ?case by (auto simp: list_all2_Cons1)
qed

lemma tag_shape:
  assumes "opening_tag t \<or> closing_tag t"
  shows "\<exists>t'. t = 60 # t' \<and> 60 \<notin> set t'"
proof -
  have a: "\<not> ci_char q 60" if "q \<in> set (u ''think>'') \<or> q \<in> set (u ''/think>'')" for q
    using that by (auto simp: u_def ci_char_def)
  have b: "60 \<notin> set t'" if "list_all2 ci_char ps t'"
    and "set ps \<subseteq> set (u ''think>'') \<union> set (u ''/think>'')" for ps t'
    using that
  proof (induction ps t' rule: list_all2_induct)
    case Nil
    then show ?case by simp
  next
    case (Cons q qs x xs)
    then show ?case using a [of q] by auto
  qed
  have c: "ci_char 60 x \<Longrightarrow> x = 60" for x by (simp add: ci_char_def)
  from assms show ?thesis
  proof
    assume "opening_tag t"
    then obtain x t' where "t = x # t'" "ci_char 60 x" "list_all2 ci_char (u ''think>'') t'"
      by (auto simp: opening_tag_def u_def list_all2_Cons1)
    then show ?thesis using b [of "u ''think>''" t'] c by auto
  next
    assume "closing_tag t"
    then obtain x t' where "t = x # t'" "ci_char 60 x" "list_all2 ci_char (u ''/think>'') t'"
      by (auto simp: closing_tag_def u_def list_all2_Cons1)
    then show ?thesis using b [of "u ''/think>''" t'] c by auto
  qed
qed

lemma no_straddle:
  assumes "60 \<notin> set t'" and "b \<noteq> []" and "b @ 60 # x = (60 # t') @ r"
  shows "\<exists>b'. b = (60 # t') @ b'"
proof -
  have "\<not> length b \<le> length t'"
  proof
    assume le: "length b \<le> length t'"
    have "(b @ 60 # x) ! length b = 60" by simp
    then have "((60 # t') @ r) ! length b = 60" using assms(3) by simp
    moreover have "((60 # t') @ r) ! length b = t' ! (length b - 1)"
      using le assms(2) by (cases b) (simp_all add: nth_append)
    moreover have "t' ! (length b - 1) \<in> set t'"
      using le assms(2) by (cases b) simp_all
    ultimately show False using assms(1) by simp
  qed
  then have "length (60 # t') \<le> length b" by simp
  then show ?thesis using assms(3) by (metis append_eq_append_conv_if append_take_drop_id)
qed

lemma open_not_before:
  assumes "opening_tag opn" and "\<not> (\<exists>a t b. pre = a @ t @ b \<and> opening_tag t)"
    and "pre = a @ b" and "b \<noteq> []"
  shows "match_ci (u ''<think>'') (b @ opn @ tl') = None"
proof (rule ccontr)
  assume "match_ci (u ''<think>'') (b @ opn @ tl') \<noteq> None"
  then obtain r t where t: "b @ opn @ tl' = t @ r" "opening_tag t"
    by (auto simp: match_ci_iff opening_tag_def)
  obtain o' where o: "opn = 60 # o'" using tag_shape assms(1) by blast
  obtain t' where t': "t = 60 # t'" "60 \<notin> set t'" using tag_shape t(2) by blast
  from no_straddle [OF t'(2) assms(4), of "o' @ tl'" r] t(1) o t'(1)
  obtain b' where "b = t @ b'" by auto
  with assms(3) have "pre = a @ t @ b'" by simp
  with assms(2) t(2) show False by blast
qed

lemma close_not_before:
  assumes "closing_tag cls" and "\<not> (\<exists>a t b. body = a @ t @ b \<and> closing_tag t)"
    and "body = a @ b" and "b \<noteq> []"
  shows "match_ci (u ''</think>'') (b @ cls @ tl') = None"
proof (rule ccontr)
  assume "match_ci (u ''</think>'') (b @ cls @ tl') \<noteq> None"
  then obtain r t where t: "b @ cls @ tl' = t @ r" "closing_tag t"
    by (auto simp: match_ci_iff closing_tag_def)
  obtain o' where o: "cls = 60 # o'" using tag_shape assms(1) by blast
  obtain t' where t': "t = 60 # t'" "60 \<notin> set t'" using tag_shape t(2) by blast
  from no_straddle [OF t'(2) assms(4), of "o' @ tl'" r] t(1) o t'(1)
  obtain b' where "b = t @ b'" by auto
  with assms(3) have "body = a @ t @ b'" by simp
  with assms(2) t(2) show False by blast
qed

lemma think_sub_Cons:
  "think_sub (c # cs) =
     (case match_ci (u ''<think>'') (c # cs) of
        None \<Rightarrow> c # think_sub cs
      | Some body \<Rightarrow>
          (case after_close body of None \<Rightarrow> c # think_sub cs | Some rest \<Rightarrow> think_sub rest))"
proof -
  have "u ''<think>'' = 60 # u ''think>''" by (simp add: u_def)
  then show ?thesis by simp
qed

lemma think_sub_prefix:
  assumes "\<And>a b. pre = a @ b \<Longrightarrow> b \<noteq> [] \<Longrightarrow> match_ci (u ''<think>'') (b @ x) = None"
  shows "think_sub (pre @ x) = pre @ think_sub x"
  using assms
proof (induction pre)
  case Nil
  then show ?case by simp
next
  case (Cons c pre)
  have "match_ci (u ''<think>'') ((c # pre) @ x) = None"
    using Cons.prems [of "[]" "c # pre"] by simp
  moreover have "think_sub (pre @ x) = pre @ think_sub x"
  proof (rule Cons.IH)
    fix a b assume "pre = a @ b" "b \<noteq> []"
    then show "match_ci (u ''<think>'') (b @ x) = None"
      using Cons.prems [of "c # a" b] by simp
  qed
  ultimately show ?case by (simp only: append_Cons think_sub_Cons option.case)
qed

lemma after_close_prefix:
  assumes "\<And>a b. body = a @ b \<Longrightarrow> b \<noteq> [] \<Longrightarrow> match_ci (u ''</think>'') (b @ x) = None"
  shows "after_close (body @ x) = after_close x"
  using assms
proof (induction body)
  case Nil
  then show ?case by simp
next
  case (Cons c body)
  have "match_ci (u ''</think>'') ((c # body) @ x) = None"
    using Cons.prems [of "[]" "c # body"] by simp
  moreover have "after_close (body @ x) = after_close x"
  proof (rule Cons.IH)
    fix a b assume "body = a @ b" "b \<noteq> []"
    then show "match_ci (u ''</think>'') (b @ x) = None"
      using Cons.prems [of "c # a" b] by simp
  qed
  ultimately show ?case by simp
qed

lemma think_sub_leftmost_shortest:
  assumes "opening_tag opn" and "closing_tag cls"
    and "\<not> (\<exists>a t b. pre = a @ t @ b \<and> opening_tag t)"
    and "\<not> (\<exists>a t b. body = a @ t @ b \<and> closing_tag t)"
  shows "think_sub (pre @ opn @ body @ cls @ rest) = pre @ think_sub rest"
proof -
  have 1: "think_sub (pre @ opn @ body @ cls @ rest) = pre @ think_sub (opn @ body @ cls @ rest)"
    by (rule think_sub_prefix) (rule open_not_before [OF assms(1,3)])
  have 2: "match_ci (u ''<think>'') (opn @ body @ cls @ rest) = Some (body @ cls @ rest)"
    using assms(1) by (auto simp: match_ci_iff opening_tag_def)
  have "after_close (body @ cls @ rest) = after_close (cls @ rest)"
    by (rule after_close_prefix) (rule close_not_before [OF assms(2,4)])
  moreover have "after_close (cls @ rest) = Some rest"
    by (rule after_close_hit) (use assms(2) in \<open>auto simp: match_ci_iff closing_tag_def\<close>)
  ultimately have 3: "after_close (body @ cls @ rest) = Some rest" by simp
  obtain o' where "opn = 60 # o'" using tag_shape assms(1) by blast
  then have "think_sub (opn @ body @ cls @ rest) = think_sub rest"
    using 2 3 by (simp only: append_Cons think_sub_Cons option.case)
  with 1 show ?thesis by simp
qed

lemma after_close_Some:
  "after_close s = Some r \<Longrightarrow> \<exists>b cl. s = b @ cl @ r \<and> closing_tag cl"
proof (induction s)
  case Nil
  then show ?case by simp
next
  case (Cons c s)
  show ?case
  proof (cases "match_ci (u ''</think>'') (c # s)")
    case None
    with Cons obtain b cl where "s = b @ cl @ r" "closing_tag cl" by auto
    then have "c # s = (c # b) @ cl @ r" by simp
    with \<open>closing_tag cl\<close> show ?thesis by blast
  next
    case (Some r')
    with Cons.prems have "r' = r" by simp
    with Some obtain t where "c # s = t @ r" "closing_tag t"
      by (auto simp: match_ci_iff closing_tag_def)
    then have "c # s = [] @ t @ r" by simp
    with \<open>closing_tag t\<close> show ?thesis by blast
  qed
qed

lemma think_sub_no_block:
  "\<not> (\<exists>a opn b cls r. s = a @ opn @ b @ cls @ r \<and> opening_tag opn \<and> closing_tag cls) \<Longrightarrow>
   think_sub s = s"
proof (induction s)
  case Nil
  then show ?case by simp
next
  case (Cons c s)
  have nb: "\<not> (\<exists>a opn b cls r. s = a @ opn @ b @ cls @ r \<and> opening_tag opn \<and> closing_tag cls)"
  proof
    assume "\<exists>a opn b cls r. s = a @ opn @ b @ cls @ r \<and> opening_tag opn \<and> closing_tag cls"
    then obtain a opn b cls r where "s = a @ opn @ b @ cls @ r" "opening_tag opn" "closing_tag cls"
      by blast
    then have "c # s = (c # a) @ opn @ b @ cls @ r" by simp
    with Cons.prems \<open>opening_tag opn\<close> \<open>closing_tag cls\<close> show False by blast
  qed
  have "\<not> (\<exists>body rest. match_ci (u ''<think>'') (c # s) = Some body \<and> after_close body = Some rest)"
  proof
    assume "\<exists>body rest. match_ci (u ''<think>'') (c # s) = Some body \<and> after_close body = Some rest"
    then obtain body rest where m: "match_ci (u ''<think>'') (c # s) = Some body"
      and ac: "after_close body = Some rest" by blast
    from m obtain t where "c # s = t @ body" "opening_tag t"
      by (auto simp: match_ci_iff opening_tag_def)
    moreover from after_close_Some [OF ac] obtain b cl where "body = b @ cl @ rest" "closing_tag cl"
      by blast
    ultimately have "c # s = [] @ t @ b @ cl @ rest" by simp
    with Cons.prems \<open>opening_tag t\<close> \<open>closing_tag cl\<close> show False by blast
  qed
  then show ?case
    using Cons.IH [OF nb] by (simp only: think_sub_Cons split: option.splits) auto
qed

lemma strip_decomp:
  "\<exists>a b. w = a @ strip w @ b \<and> list_all py_isspace a \<and> list_all py_isspace b"
proof -
  let ?d = "dropWhile py_isspace w"
  have "w = takeWhile py_isspace w @ ?d" by simp
  moreover have "?d = strip w @ rev (takeWhile py_isspace (rev ?d))"
    by (simp add: strip_def strip_split)
  moreover have "list_all py_isspace (takeWhile py_isspace w)"
    by (auto simp: list_all_iff dest: set_takeWhileD)
  moreover have "list_all py_isspace (rev (takeWhile py_isspace (rev ?d)))"
    by (auto simp: list_all_iff dest: set_takeWhileD)
  ultimately show ?thesis by metis
qed

lemma tag_nonempty: "opening_tag t \<or> closing_tag t \<Longrightarrow> t \<noteq> []"
  using tag_shape by blast

lemma block_decomp:
  assumes "\<exists>a opn b cls r. s = a @ opn @ b @ cls @ r \<and> opening_tag opn \<and> closing_tag cls"
  shows "\<exists>pre opn body cls rest. s = pre @ opn @ body @ cls @ rest \<and>
     opening_tag opn \<and> closing_tag cls \<and>
     \<not> (\<exists>a t b. pre = a @ t @ b \<and> opening_tag t) \<and>
     \<not> (\<exists>a t b. body = a @ t @ b \<and> closing_tag t)"
proof -
  define P where "P = (\<lambda>(a, opn, b, cls, r).
     s = a @ opn @ b @ cls @ r \<and> opening_tag opn \<and> closing_tag cls)"
  from assms obtain k where "P k" by (auto simp: P_def)
  from ex_has_least_nat [of P k "\<lambda>(a, opn, b, cls, r). length a", OF this]
  obtain x where x: "P x"
    "\<forall>y. P y \<longrightarrow> (\<lambda>(a, opn, b, cls, r). length a) x \<le> (\<lambda>(a, opn, b, cls, r). length a) y"
    by blast
  obtain pre opn b0 cls0 r0 where xe: "x = (pre, opn, b0, cls0, r0)" by (cases x)
  have p: "P (pre, opn, b0, cls0, r0)" using x(1) xe by simp
  have least1: "length pre \<le> length a'" if "P (a', o', b', c', r')" for a' o' b' c' r'
    using x(2) that xe by fastforce
  define Q where "Q = (\<lambda>(b, cls, r). P (pre, opn, b, cls, r))"
  from p have "Q (b0, cls0, r0)" by (simp add: Q_def)
  from ex_has_least_nat [of Q "(b0, cls0, r0)" "\<lambda>(b, cls, r). length b", OF this]
  obtain y where y: "Q y"
    "\<forall>z. Q z \<longrightarrow> (\<lambda>(b, cls, r). length b) y \<le> (\<lambda>(b, cls, r). length b) z"
    by blast
  obtain body cls rest where ye: "y = (body, cls, rest)" by (cases y)
  have q: "P (pre, opn, body, cls, rest)" using y(1) ye by (simp add: Q_def)
  have least2: "length body \<le> length b'" if "P (pre, opn, b', c', r')" for b' c' r'
  proof -
    from that have "Q (b', c', r')" by (simp add: Q_def)
    with y(2) ye show ?thesis by fastforce
  qed
  from q have s: "s = pre @ opn @ body @ cls @ rest" and o: "opening_tag opn"
    and c: "closing_tag cls" by (simp_all add: P_def)
  have "\<not> (\<exists>a t b. pre = a @ t @ b \<and> opening_tag t)"
  proof
    assume "\<exists>a t b. pre = a @ t @ b \<and> opening_tag t"
    then obtain a t b where e: "pre = a @ t @ b" "opening_tag t" by blast
    then have "P (a, t, b @ opn @ body, cls, rest)" using s c by (simp add: P_def)
    from least1 [OF this] e tag_nonempty [of t] show False by simp
  qed
  moreover have "\<not> (\<exists>a t b. body = a @ t @ b \<and> closing_tag t)"
  proof
    assume "\<exists>a t b. body = a @ t @ b \<and> closing_tag t"
    then obtain a t b where e: "body = a @ t @ b" "closing_tag t" by blast
    then have "P (pre, opn, a, t, b @ cls @ rest)" using s o by (simp add: P_def)
    from least2 [OF this] e tag_nonempty [of t] show False by simp
  qed
  ultimately have "s = pre @ opn @ body @ cls @ rest \<and>
     opening_tag opn \<and> closing_tag cls \<and>
     \<not> (\<exists>a t b. pre = a @ t @ b \<and> opening_tag t) \<and>
     \<not> (\<exists>a t b. body = a @ t @ b \<and> closing_tag t)"
    using s o c by (simp only: simp_thms)
  then show ?thesis by (intro exI)
qed

lemma think_sub_unique:
  assumes nb: "\<And>s. \<not> (\<exists>a opn b cls r. s = a @ opn @ b @ cls @ r \<and> opening_tag opn \<and>
        closing_tag cls) \<Longrightarrow> f s = s"
    and bl: "\<And>pre opn body cls rest. opening_tag opn \<Longrightarrow> closing_tag cls \<Longrightarrow>
        \<not> (\<exists>a t b. pre = a @ t @ b \<and> opening_tag t) \<Longrightarrow>
        \<not> (\<exists>a t b. body = a @ t @ b \<and> closing_tag t) \<Longrightarrow>
        f (pre @ opn @ body @ cls @ rest) = pre @ f rest"
  shows "f s = think_sub s"
proof (induction s rule: length_induct)
  case (1 s)
  show ?case
  proof (cases "\<exists>a opn b cls r. s = a @ opn @ b @ cls @ r \<and> opening_tag opn \<and> closing_tag cls")
    case False
    have "f s = s" using False by (rule nb)
    moreover have "think_sub s = s" using False by (rule think_sub_no_block)
    ultimately show ?thesis by (simp only:)
  next
    case True
    from block_decomp [OF True] obtain pre opn body cls rest where
      s: "s = pre @ opn @ body @ cls @ rest" and o: "opening_tag opn" and c: "closing_tag cls"
      and n1: "\<not> (\<exists>a t b. pre = a @ t @ b \<and> opening_tag t)"
      and n2: "\<not> (\<exists>a t b. body = a @ t @ b \<and> closing_tag t)"
      by (elim exE conjE) (erule that; assumption)
    have "length rest < length (pre @ opn @ body @ cls @ rest)"
      using tag_nonempty [of opn] o by simp
    then have "length rest < length s" by (simp only: s)
    then have r: "f rest = think_sub rest" by (rule 1 [rule_format])
    have "f (pre @ opn @ body @ cls @ rest) = pre @ f rest"
      using o c n1 n2 by (rule bl)
    moreover have "think_sub (pre @ opn @ body @ cls @ rest) = pre @ think_sub rest"
      using o c n1 n2 by (rule think_sub_leftmost_shortest)
    ultimately show ?thesis by (simp only: s r)
  qed
qed

lemma strip_unique:
  assumes "w = a @ m @ b" and "list_all py_isspace a" and "list_all py_isspace b"
    and "m \<noteq> [] \<longrightarrow> \<not> py_isspace (hd m) \<and> \<not> py_isspace (last m)"
  shows "strip w = m"
proof (cases "m = []")
  case True
  with assms have "list_all py_isspace w" by simp
  then have "dropWhile py_isspace w = []" by (induction w) simp_all
  then have "strip w = rev (dropWhile py_isspace (rev []))" by (simp only: strip_def)
  then show ?thesis using True by simp
next
  case False
  with assms(4) have h: "\<not> py_isspace (hd m)" and l: "\<not> py_isspace (last m)" by simp_all
  have "dropWhile py_isspace (a @ m @ b) = dropWhile py_isspace (m @ b)"
    by (rule dropWhile_append2) (use assms(2) in \<open>simp add: list_all_iff\<close>)
  moreover have "dropWhile py_isspace (m @ b) = m @ b"
    using False h by (cases m) simp_all
  ultimately have "dropWhile py_isspace w = m @ b" using assms(1) by simp
  moreover have "dropWhile py_isspace (rev (m @ b)) = rev m"
  proof -
    have "rev (m @ b) = rev b @ rev m" by simp
    moreover have "dropWhile py_isspace (rev b @ rev m) = dropWhile py_isspace (rev m)"
      by (rule dropWhile_append2) (use assms(3) in \<open>simp add: list_all_iff\<close>)
    moreover have "dropWhile py_isspace (rev m) = rev m"
    proof -
      obtain x xs where rm: "rev m = x # xs" using False by (cases "rev m") simp_all
      have "hd (rev m) = last m" using False by (simp add: hd_rev)
      then have "x = last m" by (simp add: rm)
      then show ?thesis using l by (simp add: rm)
    qed
    ultimately show ?thesis by simp
  qed
  ultimately show ?thesis by (simp add: strip_def)
qed

lemma opening_tag_gt: "opening_tag t \<Longrightarrow> 62 \<in> set t"
  by (auto simp: opening_tag_def u_def list_all2_Cons1 ci_char_def)

lemma closing_tag_slash: "closing_tag t \<Longrightarrow> 47 \<in> set t"
  by (auto simp: closing_tag_def u_def list_all2_Cons1 ci_char_def)

lemma no_opening_tag: "62 \<notin> set s \<Longrightarrow> \<not> (\<exists>a t b. s = a @ t @ b \<and> opening_tag t)"
  using opening_tag_gt by fastforce

lemma no_closing_tag: "47 \<notin> set s \<Longrightarrow> \<not> (\<exists>a t b. s = a @ t @ b \<and> closing_tag t)"
  using closing_tag_slash by fastforce

lemma no_block:
  "47 \<notin> set s \<Longrightarrow>
   \<not> (\<exists>a t b c r. s = a @ t @ b @ c @ r \<and> opening_tag t \<and> closing_tag c)"
  using closing_tag_slash by fastforce


text \<open>
  C7. For every stored row the Transcript Loader removes the thinking-tag blocks
  (opening tag, any content including newlines, closing tag, case-insensitive),
  trims surrounding whitespace and leaves the row out when nothing remains; the rows
  it keeps stay in their order.

  The contents of the transcript are the non-empty ones among the stripped and
  trimmed messages of the rows, in the order of the query. The substitution: in a
  text \<open>pre opn body cls rest\<close>, where \<open>opn\<close> is an opening tag, \<open>cls\<close> a closing
  tag, no opening tag lies in \<open>pre\<close> and no closing tag in \<open>body\<close> (whatever else
  they contain), the block is dropped and the substitution goes on with \<open>rest\<close>; a
  text in which no opening tag is followed by a closing tag is left as it is. These
  two laws fix the substitution on every text (\<open>think_sub_unique\<close>). The trimming:
  the result is the text without a run of whitespace at its start and one at its
  end, and it neither starts nor ends with whitespace, which fixes it as well
  (\<open>strip_unique\<close>). \<open><think>secret</think>visible\<close> yields \<open>visible\<close>, also when
  the block holds a \<open><\<close>, and a message that is only a thinking block yields the
  empty string.
\<close>

theorem load_msgs_strips_thinking:
  "map content (load_msgs st sid) =
     filter (\<lambda>c. c \<noteq> []) (map (\<lambda>r. strip (think_sub (message r))) (load_ordered st sid)) \<and>
   (opening_tag opn \<and> closing_tag cls \<and>
    \<not> (\<exists>a t b. pre = a @ t @ b \<and> opening_tag t) \<and>
    \<not> (\<exists>a t b. body = a @ t @ b \<and> closing_tag t) \<longrightarrow>
      think_sub (pre @ opn @ body @ cls @ rest) = pre @ think_sub rest) \<and>
   (\<not> (\<exists>a t b c r. s = a @ t @ b @ c @ r \<and> opening_tag t \<and> closing_tag c) \<longrightarrow>
      think_sub s = s) \<and>
   (\<exists>a b. w = a @ strip w @ b \<and> list_all py_isspace a \<and> list_all py_isspace b) \<and>
   (strip w \<noteq> [] \<longrightarrow> \<not> py_isspace (hd (strip w)) \<and> \<not> py_isspace (last (strip w))) \<and>
   clean_message (u ''<think>secret</think>visible'') = u ''visible'' \<and>
   clean_message (u ''<think>secret</think>'') = [] \<and>
   clean_message (u ''<think>if x < 3 then secret</think>visible'') = u ''visible''"
proof -
  have 1: "map content (load_msgs st sid) =
     filter (\<lambda>c. c \<noteq> []) (map (\<lambda>r. strip (think_sub (message r))) (load_ordered st sid))"
    by (simp add: load_msgs_eq clean_message_def filter_map comp_def)
  have 2: "opening_tag opn \<and> closing_tag cls \<and>
    \<not> (\<exists>a t b. pre = a @ t @ b \<and> opening_tag t) \<and>
    \<not> (\<exists>a t b. body = a @ t @ b \<and> closing_tag t) \<longrightarrow>
      think_sub (pre @ opn @ body @ cls @ rest) = pre @ think_sub rest"
  proof (intro impI, elim conjE)
    assume "opening_tag opn" "closing_tag cls"
      "\<not> (\<exists>a t b. pre = a @ t @ b \<and> opening_tag t)"
      "\<not> (\<exists>a t b. body = a @ t @ b \<and> closing_tag t)"
    then show "think_sub (pre @ opn @ body @ cls @ rest) = pre @ think_sub rest"
      by (rule think_sub_leftmost_shortest)
  qed
  have 3: "\<not> (\<exists>a t b c r. s = a @ t @ b @ c @ r \<and> opening_tag t \<and> closing_tag c) \<longrightarrow>
      think_sub s = s"
    by (intro impI) (rule think_sub_no_block)
  have 4: "\<exists>a b. w = a @ strip w @ b \<and> list_all py_isspace a \<and> list_all py_isspace b"
    by (rule strip_decomp)
  have 5: "strip w \<noteq> [] \<longrightarrow> \<not> py_isspace (hd (strip w)) \<and> \<not> py_isspace (last (strip w))"
    by (intro impI) (rule strip_ends)
  have 6: "clean_message (u ''<think>secret</think>visible'') = u ''visible''"
    by (simp add: eval_clean)
  have 7: "clean_message (u ''<think>secret</think>'') = []"
    by (simp add: eval_clean)
  have 8: "clean_message (u ''<think>if x < 3 then secret</think>visible'') = u ''visible''"
    by (simp add: eval_clean)
  from 1 2 3 4 5 6 7 8 show ?thesis by (intro conjI)
qed

theorem load_msgs_strips_thinking_witness:
  "opening_tag (u ''<ThINK>'') \<and> closing_tag (u ''</THINK>'') \<and>
   \<not> (\<exists>a t b. u ''a < b '' = a @ t @ b \<and> opening_tag t) \<and>
   \<not> (\<exists>a t b. u ''if x < 3 <b>'' = a @ t @ b \<and> closing_tag t) \<and>
   \<not> (\<exists>a t b c r. u ''open <think> only'' = a @ t @ b @ c @ r \<and> opening_tag t \<and> closing_tag c) \<and>
   strip (u ''  b c '') \<noteq> [] \<and>
   map content (load_msgs think_db (u ''s1'')) = [u ''hi'', u ''visible''] \<and>
   think_sub (u ''a < b <ThINK>if x < 3 <b></THINK>b<think>c</think>d'') = u ''a < b bd'' \<and>
   think_sub (u ''open <think> only'') = u ''open <think> only'' \<and>
   strip (u ''  b c '') = u ''b c''"
proof -
  have h1: "opening_tag (u ''<ThINK>'')" "closing_tag (u ''</THINK>'')"
    by (simp_all add: opening_tag_def closing_tag_def u_def ci_char_def)
  have h2: "\<not> (\<exists>a t b. u ''a < b '' = a @ t @ b \<and> opening_tag t)"
    by (rule no_opening_tag) (simp add: u_def)
  have h3: "\<not> (\<exists>a t b. u ''if x < 3 <b>'' = a @ t @ b \<and> closing_tag t)"
    by (rule no_closing_tag) (simp add: u_def)
  have h4: "\<not> (\<exists>a t b c r. u ''open <think> only'' = a @ t @ b @ c @ r \<and>
      opening_tag t \<and> closing_tag c)"
    by (rule no_block) (simp add: u_def)
  have k: "strip (u ''  b c '') \<noteq> []" "strip (u ''  b c '') = u ''b c''"
    by (simp_all add: eval_clean)
  have c: "filter (\<lambda>c. c \<noteq> [])
        (map (\<lambda>r. strip (think_sub (message r))) (load_ordered think_db (u ''s1''))) =
      [u ''hi'', u ''visible'']"
    by (simp add: load_ordered_think_db) (simp add: think_db_def eval_clean)
  have t: "think_sub (u ''b<think>c</think>d'') = u ''bd''"
    by (simp add: eval_clean)
  have e: "u ''a < b <ThINK>if x < 3 <b></THINK>b<think>c</think>d'' =
      u ''a < b '' @ u ''<ThINK>'' @ u ''if x < 3 <b>'' @ u ''</THINK>'' @ u ''b<think>c</think>d''"
    "u ''a < b bd'' = u ''a < b '' @ u ''bd''"
    by (simp_all add: u_def)
  note inst = load_msgs_strips_thinking
    [of think_db "u ''s1''" "u ''<ThINK>''" "u ''</THINK>''" "u ''a < b ''" "u ''if x < 3 <b>''"
       "u ''b<think>c</think>d''" "u ''open <think> only''" "u ''  b c ''"]
  have a: "map content (load_msgs think_db (u ''s1'')) = [u ''hi'', u ''visible'']"
    using inst [THEN conjunct1] c by (simp only:)
  have b: "think_sub (u ''a < b '' @ u ''<ThINK>'' @ u ''if x < 3 <b>'' @ u ''</THINK>'' @
        u ''b<think>c</think>d'') = u ''a < b '' @ think_sub (u ''b<think>c</think>d'')"
    by (rule inst [THEN conjunct2, THEN conjunct1, rule_format]) (intro conjI h1 h2 h3)
  have d: "think_sub (u ''open <think> only'') = u ''open <think> only''"
    by (rule inst [THEN conjunct2, THEN conjunct2, THEN conjunct1, rule_format]) (rule h4)
  have f: "think_sub (u ''a < b <ThINK>if x < 3 <b></THINK>b<think>c</think>d'') = u ''a < b bd''"
    by (simp only: e b t)
  from h1 h2 h3 h4 k(1) a f d k(2) show ?thesis by (intro conjI)
qed

text \<open>
  C8. For every stored row that enters the transcript, role \<open>bot\<close> becomes
  \<open>assistant\<close> and every other role, \<open>user\<close> among them, is passed on unchanged.
\<close>

theorem load_msgs_role_remap:
  "map e_role (load_msgs st sid) =
     map (\<lambda>r. if role r = u ''bot'' then u ''assistant'' else role r)
       (filter (\<lambda>r. clean_message (message r) \<noteq> []) (load_ordered st sid)) \<and>
   remap_role (u ''bot'') = u ''assistant'' \<and> remap_role (u ''user'') = u ''user''"
  by (simp add: load_msgs_eq remap_role_def comp_def) (simp add: u_def)

text \<open>
  C9. For every session \<open>S\<close>, \<open>load_ordered(S)\<close> returns all of the messages of \<open>S\<close>,
  and no others, in non-decreasing timestamp order; a second call on a store whose
  table has not been written in between returns the same rows, and the transcript
  built from them is the same.
\<close>

theorem load_ordered_sorted_idempotent:
  "sorted (map ts (load_ordered st sid)) \<and>
   mset (load_ordered st sid) = mset (filter (\<lambda>r. session_id r = sid) (chats st)) \<and>
   (chats st' = chats st \<longrightarrow>
      load_ordered st' sid = load_ordered st sid \<and> load_msgs st' sid = load_msgs st sid)"
  by (simp add: load_ordered_def load_msgs_def)

theorem load_ordered_sorted_idempotent_witness:
  "chats (think_db\<lparr>db_lock := True\<rparr>) = chats think_db \<and>
   map ts (load_ordered think_db (u ''s1'')) = [2, 3, 4] \<and>
   sorted (map ts (load_ordered think_db (u ''s1''))) \<and>
   load_ordered (think_db\<lparr>db_lock := True\<rparr>) (u ''s1'') = load_ordered think_db (u ''s1'') \<and>
   load_msgs (think_db\<lparr>db_lock := True\<rparr>) (u ''s1'') = load_msgs think_db (u ''s1'')"
proof -
  have "map ts (load_ordered think_db (u ''s1'')) = [2, 3, 4]"
    by (simp add: load_ordered_think_db) (simp add: think_db_def)
  then show ?thesis
    using load_ordered_sorted_idempotent [of think_db "u ''s1''" "think_db\<lparr>db_lock := True\<rparr>"]
    by simp
qed

section \<open>Properties of the adapter\<close>

lemma error_text_marker: "take (length error_marker) (error_text e) = error_marker"
  by (simp add: error_text_def)

lemma error_text_nonempty: "error_text e \<noteq> []"
  by (simp add: error_text_def error_marker_def)

lemma on_line_decode_error:
  "line \<noteq> [] \<Longrightarrow> decode_utf8 lib line = Inl e \<Longrightarrow> on_line lib line = Raise e"
  by (simp add: on_line_def)

lemma on_line_not_dict:
  assumes "line \<noteq> []" and "decode_utf8 lib line = Inr d" and "take 6 d \<noteq> u ''data: ''"
    and "d \<noteq> u ''[DONE]''" and "json_loads lib d = Some v" and "\<not> is_dict v"
  shows "on_line lib line = Raise (no_attribute_get v)"
  using assms by (cases v) (simp_all add: on_line_def)

lemma iter_lines_silent:
  "iter_lines lib ls None = [] \<Longrightarrow> iter_lines lib (ls @ after) rd = iter_lines lib after rd"
  by (induction ls) (auto simp: error_fragment_def split: step.splits)

lemma iter_lines_read_error:
  "iter_lines lib ls None = [] \<Longrightarrow> iter_lines lib ls (Some e) = [error_fragment e]"
  using iter_lines_silent [of lib ls "[]" "Some e"] by simp

lemma iter_lines_line_error:
  "iter_lines lib pre None = [] \<Longrightarrow> on_line lib line = Raise e \<Longrightarrow>
   iter_lines lib (pre @ line # rest) rd = [error_fragment e]"
  by (simp add: iter_lines_silent)

lemmas eval_lines = on_line_def sample_lib_def sample_decode_def sample_loads_def u_def

lemma stream_hello_example:
  "snd (stream_claude_sonnet sample_lib hello_net h) = [PStr (u ''Hel''), PStr (u ''lo'')] \<and>
   u ''Hel'' @ u ''lo'' = u ''Hello''"
  by (simp add: stream_claude_sonnet_def hello_net_def eval_lines)


text \<open>
  C3. The adapter should strip a leading \<open>data: \<close> from each line, ignore \<open>[DONE]\<close>,
  yield the non-empty delta of each \<open>text-delta\<close> record in arrival order and silently
  skip every other record and every line that fails to decode. The code does not
  skip a line whose bytes fail to decode as UTF-8, nor a line whose JSON value is not
  an object: \<open>line.decode\<close> stands outside the inner \<open>try\<close>, and \<open>data_json.get\<close>
  raises an \<open>AttributeError\<close> that the inner \<open>except\<close> does not name. Either line
  ends the stream with one error fragment, and the deltas of the lines behind it are
  lost.
\<close>

theorem iter_lines_aborts_on_bad_line:
  "(line \<noteq> [] \<and> decode_utf8 lib line = Inl e \<longrightarrow>
      iter_lines lib (line # rest) rd = [PStr (error_text e)]) \<and>
   (line' \<noteq> [] \<and> decode_utf8 lib line' = Inr d \<and> take 6 d \<noteq> u ''data: '' \<and>
    d \<noteq> u ''[DONE]'' \<and> json_loads lib d = Some v \<and> \<not> is_dict v \<longrightarrow>
      iter_lines lib (line' # rest) rd = [PStr (error_text (no_attribute_get v))])"
  by (auto simp: on_line_decode_error on_line_not_dict error_fragment_def)

theorem iter_lines_aborts_on_bad_line_witness:
  \<open>[CHR 0xFF] \<noteq> [] \<and> decode_utf8 sample_lib [CHR 0xFF] = Inl (OtherException (u ''invalid start byte'')) \<and>
   ''5'' \<noteq> [] \<and> decode_utf8 sample_lib ''5'' = Inr (u ''5'') \<and> take 6 (u ''5'') \<noteq> u ''data: '' \<and>
   u ''5'' \<noteq> u ''[DONE]'' \<and> json_loads sample_lib (u ''5'') = Some (PInt 5) \<and> \<not> is_dict (PInt 5) \<and>
   snd (stream_claude_sonnet sample_lib garbled_net []) =
     [PStr (error_text (OtherException (u ''invalid start byte'')))] \<and>
   iter_lines sample_lib [''5'', ''data: {"type":"text-delta","delta":"Hel"}''] None =
     [PStr (error_text (no_attribute_get (PInt 5)))]\<close>
proof -
  have a: "[CHR 0xFF] \<noteq> [] \<and>
      decode_utf8 sample_lib [CHR 0xFF] = Inl (OtherException (u ''invalid start byte''))"
    by (simp add: sample_lib_def sample_decode_def)
  have b: "''5'' \<noteq> [] \<and> decode_utf8 sample_lib ''5'' = Inr (u ''5'') \<and>
      take 6 (u ''5'') \<noteq> u ''data: '' \<and> u ''5'' \<noteq> u ''[DONE]'' \<and>
      json_loads sample_lib (u ''5'') = Some (PInt 5) \<and> \<not> is_dict (PInt 5)"
    by (simp add: sample_lib_def sample_decode_def sample_loads_def u_def)
  note t = iter_lines_aborts_on_bad_line
    [of "[CHR 0xFF]" sample_lib "OtherException (u ''invalid start byte'')"
        \<open>[''data: {"type":"text-delta","delta":"Hel"}'']\<close> None "''5''" "u ''5''" "PInt 5"]
  have "snd (stream_claude_sonnet sample_lib garbled_net []) =
      [PStr (error_text (OtherException (u ''invalid start byte'')))]"
    using t a by (simp add: stream_claude_sonnet_def garbled_net_def)
  moreover have
    \<open>iter_lines sample_lib [''5'', ''data: {"type":"text-delta","delta":"Hel"}''] None =
      [PStr (error_text (no_attribute_get (PInt 5)))]\<close>
    using t b by blast
  ultimately show ?thesis using a b by blast
qed

section \<open>Properties of gen\<close>

lemma not_supported_msg_nonempty: "not_supported_msg m \<noteq> []"
  by (simp add: not_supported_msg_def)

lemma except_msg_nonempty: "except_msg m e \<noteq> []"
  by (cases e) (simp_all add: connection_error_msg_def system_error_msg_def)

lemma on_line_yield_truthy: "on_line lib line = Yield d \<Longrightarrow> truthy d"
  by (auto simp: on_line_def Let_def split: if_splits sum.splits option.splits pyval.splits)

lemma iter_lines_truthy: "v \<in> set (iter_lines lib ls rd) \<Longrightarrow> truthy v"
proof (induction lib ls rd rule: iter_lines.induct)
  case (3 lib line lines rd)
  then show ?case
    by (cases "on_line lib line")
       (auto simp: error_fragment_def error_text_nonempty dest: on_line_yield_truthy)
qed (auto simp: error_fragment_def error_text_nonempty)

lemma stream_truthy: "v \<in> set (snd (stream_claude_sonnet lib net h)) \<Longrightarrow> truthy v"
  by (auto simp: stream_claude_sonnet_def error_fragment_def error_text_nonempty
      split: upstream.splits option.splits dest: iter_lines_truthy)

lemma relay_buffer:
  "relay b cs = (out, r) \<Longrightarrow> (\<And>v. v \<in> set cs \<Longrightarrow> truthy v) \<Longrightarrow>
   [] \<notin> set out \<and> (\<forall>buf. r = Inr buf \<longrightarrow> buf = b @ concat out)"
proof (induction b cs arbitrary: out r rule: relay.induct)
  case (2 buffer chunk_text chunks)
  obtain out' r' where rl: "relay (buffer @ chunk_text) chunks = (out', r')"
    by (cases "relay (buffer @ chunk_text) chunks")
  with 2 have "out = chunk_text # out'" "r = r'" by auto
  moreover have "chunk_text \<noteq> []" using 2(3) [of "PStr chunk_text"] by simp
  moreover have "[] \<notin> set out' \<and> (\<forall>buf. r' = Inr buf \<longrightarrow> buf = (buffer @ chunk_text) @ concat out')"
    using 2(1) [OF rl] 2(3) by simp
  ultimately show ?case by auto
qed auto

lemma gen_stream_empty:
  "(buffer (gen_stream lib net model h) = []) = (yielded (gen_stream lib net model h) = [])"
proof (cases "model = supported_model")
  case False
  then show ?thesis by (simp add: gen_stream_def not_supported_msg_nonempty)
next
  case True
  obtain posts cs where s: "stream_claude_sonnet lib net h = (posts, cs)"
    by (cases "stream_claude_sonnet lib net h")
  obtain out r where rl: "relay [] cs = (out, r)" by (cases "relay [] cs")
  have tr: "\<And>v. v \<in> set cs \<Longrightarrow> truthy v" using stream_truthy [of _ lib net h] s by simp
  show ?thesis
  proof (cases r)
    case (Inl e)
    with True s rl show ?thesis by (simp add: gen_stream_def except_msg_nonempty)
  next
    case (Inr buf)
    from relay_buffer [OF rl tr] Inr have "[] \<notin> set out" "buf = concat out" by auto
    then have "(buf = []) = (out = [])" by (cases out) auto
    with True s rl Inr show ?thesis by (simp add: gen_stream_def)
  qed
qed

lemma gen_stream_single:
  assumes "snd (stream_claude_sonnet lib net h) = [PStr f]"
  shows "gen_stream lib net supported_model h = \<lparr>posted = [h], yielded = [f], buffer = f\<rparr>"
proof -
  have "stream_claude_sonnet lib net h = ([h], [PStr f])"
    using assms by (simp add: stream_claude_sonnet_def)
  then show ?thesis by (simp add: gen_stream_def)
qed



text \<open>
  C5. For every request, once the fragment sequence is exhausted, by whatever path:
  when the buffer is not empty, \<open>action=continue\<close> calls \<open>update_last\<close> with the
  buffer and \<open>action=chat\<close> appends a message with role \<open>bot\<close> and the buffer as its
  content; when the buffer is empty, nothing is written to the store. The buffer is
  empty exactly when no fragment was yielded.
\<close>

theorem gen_commits_buffer:
  "stream (gen lib net model action sid h now st) = gen_stream lib net model h \<and>
   (buffer (gen_stream lib net model h) = [] \<longrightarrow>
      store (gen lib net model action sid h now st) = Returns st) \<and>
   (buffer (gen_stream lib net model h) \<noteq> [] \<and> action = u ''continue'' \<longrightarrow>
      store (gen lib net model action sid h now st) =
        update_last_bot_message sid (buffer (gen_stream lib net model h)) now st) \<and>
   (buffer (gen_stream lib net model h) \<noteq> [] \<and> action = u ''chat'' \<and> \<not> db_lock st \<longrightarrow>
      store (gen lib net model action sid h now st) =
        Returns (st\<lparr>chats := chats st @
                   [\<lparr>rid = Suc (seq st), session_id = sid, role = u ''bot'',
                     message = buffer (gen_stream lib net model h), ts = now\<rparr>],
                 seq := Suc (seq st)\<rparr>)) \<and>
   ((buffer (gen_stream lib net model h) = []) = (yielded (gen_stream lib net model h) = []))"
proof -
  have "u ''chat'' \<noteq> u ''continue''" by (simp add: u_def)
  then show ?thesis
    using gen_stream_empty [of lib net model h]
    by (simp add: gen_def gen_commit_def Let_def save_msg_free insert_chat_def)
qed

theorem gen_commits_buffer_witness:
  "buffer (gen_stream sample_lib silent_net supported_model []) = [] \<and>
   store (gen sample_lib silent_net supported_model (u ''chat'') (u ''s1'') [] 9 bot_db) =
     Returns bot_db \<and>
   buffer (gen_stream sample_lib hello_net supported_model []) = u ''Hello'' \<and>
   u ''Hello'' \<noteq> [] \<and> \<not> db_lock bot_db \<and>
   store (gen sample_lib hello_net supported_model (u ''continue'') (u ''s1'') [] 9 bot_db) =
     update_last_bot_message (u ''s1'') (u ''Hello'') 9 bot_db \<and>
   store (gen sample_lib hello_net supported_model (u ''chat'') (u ''s1'') [] 9 bot_db) =
     Returns (bot_db\<lparr>chats := chats bot_db @
                [\<lparr>rid = 3, session_id = u ''s1'', role = u ''bot'', message = u ''Hello'',
                  ts = 9\<rparr>],
              seq := 3\<rparr>)"
proof -
  have e: "buffer (gen_stream sample_lib silent_net supported_model []) = []"
    by (simp add: gen_stream_def stream_claude_sonnet_def silent_net_def eval_lines)
  have h: "buffer (gen_stream sample_lib hello_net supported_model []) = u ''Hello''"
    by (simp add: gen_stream_def stream_claude_sonnet_def hello_net_def eval_lines)
  have n: "u ''Hello'' \<noteq> []" "\<not> db_lock bot_db" "seq bot_db = 2"
    by (simp_all add: u_def bot_db_def)
  have 1: "store (gen sample_lib silent_net supported_model (u ''chat'') (u ''s1'') [] 9 bot_db) =
      Returns bot_db"
    using gen_commits_buffer
      [of sample_lib silent_net supported_model "u ''chat''" "u ''s1''" "[]" 9 bot_db] e
    by simp
  have 2: "store (gen sample_lib hello_net supported_model (u ''continue'') (u ''s1'') [] 9 bot_db) =
      update_last_bot_message (u ''s1'') (u ''Hello'') 9 bot_db"
    using gen_commits_buffer
      [of sample_lib hello_net supported_model "u ''continue''" "u ''s1''" "[]" 9 bot_db] h n
    by simp
  have 3: "store (gen sample_lib hello_net supported_model (u ''chat'') (u ''s1'') [] 9 bot_db) =
      Returns (bot_db\<lparr>chats := chats bot_db @
                [\<lparr>rid = 3, session_id = u ''s1'', role = u ''bot'', message = u ''Hello'',
                  ts = 9\<rparr>],
              seq := 3\<rparr>)"
    using gen_commits_buffer
      [of sample_lib hello_net supported_model "u ''chat''" "u ''s1''" "[]" 9 bot_db] h n
    by simp
  show ?thesis using e h n 1 2 3 by simp
qed

section \<open>Properties of the chat route\<close>

lemma chat_continue:
  assumes "req_session data = Some sid" and "req_action data = Some (u ''continue'')"
  shows "chat lib net data t1 t2 st =
     Returns (respond (gen lib net
       (case req_model data of None \<Rightarrow> u ''claude-sonnet-3.7'' | Some m \<Rightarrow> m)
       (u ''continue'') sid (load_msgs st sid @ [continue_prompt]) t2 st))"
proof -
  have "u ''continue'' \<noteq> u ''chat''" by (simp add: u_def)
  then show ?thesis using assms by (simp add: chat_def Let_def)
qed


lemma gen_failure:
  assumes "snd (stream_claude_sonnet lib net h) = [PStr f]"
  shows "gen lib net supported_model action sid h now st =
     \<lparr>stream = \<lparr>posted = [h], yielded = [f], buffer = f\<rparr>,
      store = gen_commit action sid f now st\<rparr>"
  using gen_stream_single [OF assms] by (simp add: gen_def Let_def)

lemma stream_failure:
  assumes "net h = PostRaises e \<or> (\<exists>ls rd. net h = Response (Some e) ls rd) \<or>
     (\<exists>ls. net h = Response None ls (Some e) \<and> iter_lines lib ls None = []) \<or>
     (\<exists>pre line rest rd. net h = Response None (pre @ line # rest) rd \<and>
        iter_lines lib pre None = [] \<and> on_line lib line = Raise e)"
  shows "snd (stream_claude_sonnet lib net h) = [PStr (error_text e)]"
  using assms
  by (auto simp: stream_claude_sonnet_def error_fragment_def iter_lines_read_error
      iter_lines_line_error)

text \<open>
  C4, as the code has it. When the upstream fails before any fragment is produced
  (the post raises, the status is not a success, reading the lines raises, or a line
  raises out of the loop), the adapter yields exactly one fragment, which starts
  with the error marker, and ends; no exception leaves it. \<open>gen\<close> yields that
  fragment and commits it: with \<open>action=chat\<close> a new bot message with the fragment
  as its content is appended; with \<open>action=continue\<close> \<open>update_last\<close> is called with
  the fragment, and where the session has a bot message the fragment is appended to
  the content of the most recent one.
\<close>

theorem upstream_failure_fragment_committed:
  assumes "net h = PostRaises e \<or> (\<exists>ls rd. net h = Response (Some e) ls rd) \<or>
     (\<exists>ls. net h = Response None ls (Some e) \<and> iter_lines lib ls None = []) \<or>
     (\<exists>pre line rest rd. net h = Response None (pre @ line # rest) rd \<and>
        iter_lines lib pre None = [] \<and> on_line lib line = Raise e)"
  shows "snd (stream_claude_sonnet lib net h) = [PStr (error_text e)] \<and>
     take (length error_marker) (error_text e) = error_marker \<and>
     yielded (stream (gen lib net supported_model action sid h now st)) = [error_text e] \<and>
     (action = u ''chat'' \<and> \<not> db_lock st \<longrightarrow>
        store (gen lib net supported_model action sid h now st) =
          Returns (st\<lparr>chats := chats st @
                     [\<lparr>rid = Suc (seq st), session_id = sid, role = u ''bot'',
                       message = error_text e, ts = now\<rparr>],
                   seq := Suc (seq st)\<rparr>)) \<and>
     (action = u ''continue'' \<longrightarrow>
        store (gen lib net supported_model action sid h now st) =
          update_last_bot_message sid (error_text e) now st) \<and>
     (action = u ''continue'' \<and> \<not> db_lock st \<and> last_bot_msg st sid = Some found \<longrightarrow>
        store (gen lib net supported_model action sid h now st) =
          Returns (st\<lparr>chats :=
                     map (\<lambda>r. if rid r = rid found
                               then r\<lparr>message := message found @ error_text e\<rparr> else r)
                       (chats st)\<rparr>))"
proof -
  have f: "snd (stream_claude_sonnet lib net h) = [PStr (error_text e)]"
    using assms by (rule stream_failure)
  have ne: "u ''chat'' \<noteq> u ''continue''" by (simp add: u_def)
  show ?thesis
    using f ne
    by (simp add: gen_failure [OF f] error_text_marker gen_commit_def error_text_nonempty
        save_msg_free insert_chat_def update_last_found update_message_def)
qed

lemma last_bot_bot_db: "last_bot_msg bot_db (u ''s1'') = Some (chats bot_db ! 1)"
  by (simp add: last_bot_msg_def bot_db_def u_def)

theorem upstream_failure_fragment_committed_witness:
  "down_net [] = PostRaises (RequestException (u ''Connection refused'')) \<and>
   snd (stream_claude_sonnet sample_lib down_net []) =
     [PStr (error_marker @ u '' Connection refused'')] \<and>
   \<not> db_lock bot_db \<and> last_bot_msg bot_db (u ''s1'') = Some (chats bot_db ! 1) \<and>
   store (gen sample_lib down_net supported_model (u ''chat'') (u ''s1'') [] 9 bot_db) =
     Returns (bot_db\<lparr>chats := chats bot_db @
                [\<lparr>rid = 3, session_id = u ''s1'', role = u ''bot'',
                  message = error_marker @ u '' Connection refused'', ts = 9\<rparr>],
              seq := 3\<rparr>) \<and>
   store (gen sample_lib down_net supported_model (u ''continue'') (u ''s1'') [] 9 bot_db) =
     Returns (bot_db\<lparr>chats :=
                [chats bot_db ! 0,
                 \<lparr>rid = 2, session_id = u ''s1'', role = u ''bot'',
                  message = u ''Hi'' @ error_marker @ u '' Connection refused'', ts = 6\<rparr>]\<rparr>)"
proof -
  have d: "down_net [] = PostRaises (RequestException (u ''Connection refused''))"
    by (simp add: down_net_def)
  have t: "error_text (RequestException (u ''Connection refused'')) =
      error_marker @ u '' Connection refused''"
    by (simp add: error_text_def u_def)
  have l: "\<not> db_lock bot_db" "seq bot_db = 2" by (simp_all add: bot_db_def)
  note lb = last_bot_bot_db
  have m: "map (\<lambda>r. if rid r = rid (chats bot_db ! 1)
                 then r\<lparr>message := message (chats bot_db ! 1) @
                        error_text (RequestException (u ''Connection refused''))\<rparr>
                 else r) (chats bot_db) =
      [chats bot_db ! 0,
       \<lparr>rid = 2, session_id = u ''s1'', role = u ''bot'',
        message = u ''Hi'' @ error_marker @ u '' Connection refused'', ts = 6\<rparr>]"
    by (simp add: bot_db_def t)
  have c: "store (gen sample_lib down_net supported_model (u ''chat'') (u ''s1'') [] 9 bot_db) =
     Returns (bot_db\<lparr>chats := chats bot_db @
                [\<lparr>rid = 3, session_id = u ''s1'', role = u ''bot'',
                  message = error_marker @ u '' Connection refused'', ts = 9\<rparr>],
              seq := 3\<rparr>)"
    using upstream_failure_fragment_committed
      [of down_net "[]" "RequestException (u ''Connection refused'')" sample_lib "u ''chat''"
          "u ''s1''" 9 bot_db] d t l
    by simp
  have k0: "store (gen sample_lib down_net supported_model (u ''continue'') (u ''s1'') [] 9 bot_db) =
     Returns (bot_db\<lparr>chats :=
        map (\<lambda>r. if rid r = rid (chats bot_db ! 1)
                 then r\<lparr>message := message (chats bot_db ! 1) @
                        error_text (RequestException (u ''Connection refused''))\<rparr>
                 else r) (chats bot_db)\<rparr>)"
    using upstream_failure_fragment_committed
      [of down_net "[]" "RequestException (u ''Connection refused'')" sample_lib "u ''continue''"
          "u ''s1''" 9 bot_db "chats bot_db ! 1"] d l(1) lb
    by blast
  have k: "store (gen sample_lib down_net supported_model (u ''continue'') (u ''s1'') [] 9 bot_db) =
     Returns (bot_db\<lparr>chats :=
                [chats bot_db ! 0,
                 \<lparr>rid = 2, session_id = u ''s1'', role = u ''bot'',
                  message = u ''Hi'' @ error_marker @ u '' Connection refused'', ts = 6\<rparr>]\<rparr>)"
    by (simp only: k0 m)
  have s: "snd (stream_claude_sonnet sample_lib down_net []) =
     [PStr (error_marker @ u '' Connection refused'')]"
    using upstream_failure_fragment_committed
      [of down_net "[]" "RequestException (u ''Connection refused'')" sample_lib] d t
    by simp
  show ?thesis using d l lb c k s by simp
qed

text \<open>
  C4 as stated fails for \<open>action=continue\<close>: after a connection failure no message of
  the store has the error fragment as its content; the bot message reads \<open>Hi\<close>
  followed by the fragment.
\<close>

theorem continue_failure_not_message_content:
  "\<not> (\<exists>r st'. chat sample_lib down_net continue_req 8 9 bot_db = Returns r \<and>
        db r = Returns st' \<and>
        error_text (RequestException (u ''Connection refused'')) \<in> set (map message (chats st')))"
proof -
  have f: "snd (stream_claude_sonnet sample_lib down_net h) =
      [PStr (error_text (RequestException (u ''Connection refused'')))]" for h
    by (rule stream_failure) (simp add: down_net_def)
  have q: "req_session continue_req = Some (u ''s1'')"
    "req_action continue_req = Some (u ''continue'')"
    "req_model continue_req = Some supported_model"
    by (simp_all add: continue_req_def chat_req_def supported_model_def)
  have l: "\<not> db_lock bot_db" by (simp add: bot_db_def)
  have "db (respond (gen sample_lib down_net supported_model (u ''continue'') (u ''s1'')
        (load_msgs bot_db (u ''s1'') @ [continue_prompt]) 9 bot_db)) =
      Returns (update_message
        (message (chats bot_db ! 1) @ error_text (RequestException (u ''Connection refused'')))
        (rid (chats bot_db ! 1)) bot_db)"
    by (simp add: respond_def gen_failure [OF f] gen_commit_def error_text_nonempty
        update_last_found [OF l last_bot_bot_db])
  moreover have "error_text (RequestException (u ''Connection refused'')) \<notin>
      set (map message (chats (update_message
        (message (chats bot_db ! 1) @ error_text (RequestException (u ''Connection refused'')))
        (rid (chats bot_db ! 1)) bot_db)))"
    by (simp add: update_message_def bot_db_def error_text_def error_marker_def u_def)
  ultimately show ?thesis
    using chat_continue [OF q(1,2), of sample_lib down_net 8 9 bot_db] q(3)
    by (auto simp: supported_model_def)
qed






text \<open>
  C2, as the code has it. A request with a session and an action other than \<open>chat\<close>
  and \<open>continue\<close> is answered with status 400 and the body \<open>Invalid action.\<close>; a
  request without a session, and a request with \<open>action=chat\<close> (or no action) without
  a text, is answered with status 500 and the body \<open>Server error: \<close> followed by the
  missing key in quotes. In all three cases no stream is started, nothing is posted
  upstream and the store is not written.
\<close>

theorem chat_rejects_bad_requests:
  "(req_session data = Some sid \<and> req_action data = Some a \<and> a \<noteq> u ''chat'' \<and>
    a \<noteq> u ''continue'' \<longrightarrow>
      chat lib net data t1 t2 st =
        Returns \<lparr>response = Plain 400 (u ''Invalid action.''), requests_posted = [],
                 db = Returns st\<rparr>) \<and>
   (req_session data = None \<longrightarrow>
      chat lib net data t1 t2 st =
        Returns \<lparr>response = Plain 500 (u ''Server error: '' @ [39] @ u ''session'' @ [39]),
                 requests_posted = [], db = Returns st\<rparr>) \<and>
   (req_session data = Some sid \<and> (req_action data = None \<or> req_action data = Some (u ''chat'')) \<and>
    req_text data = None \<longrightarrow>
      chat lib net data t1 t2 st =
        Returns \<lparr>response = Plain 500 (u ''Server error: '' @ [39] @ u ''text'' @ [39]),
                 requests_posted = [], db = Returns st\<rparr>)"
  by (auto simp: chat_def Let_def server_error_def key_error_def)

theorem chat_rejects_bad_requests_witness:
  "req_session (chat_req\<lparr>req_action := Some (u ''delete'')\<rparr>) = Some (u ''s1'') \<and>
   req_action (chat_req\<lparr>req_action := Some (u ''delete'')\<rparr>) = Some (u ''delete'') \<and>
   u ''delete'' \<noteq> u ''chat'' \<and> u ''delete'' \<noteq> u ''continue'' \<and>
   req_session (chat_req\<lparr>req_session := None\<rparr>) = None \<and>
   req_session (chat_req\<lparr>req_text := None\<rparr>) = Some (u ''s1'') \<and>
   req_action (chat_req\<lparr>req_text := None\<rparr>) = Some (u ''chat'') \<and>
   req_text (chat_req\<lparr>req_text := None\<rparr>) = None \<and>
   chat sample_lib hello_net (chat_req\<lparr>req_action := Some (u ''delete'')\<rparr>) 8 9 bot_db =
     Returns \<lparr>response = Plain 400 (u ''Invalid action.''), requests_posted = [],
              db = Returns bot_db\<rparr> \<and>
   chat sample_lib hello_net (chat_req\<lparr>req_session := None\<rparr>) 8 9 bot_db =
     Returns \<lparr>response = Plain 500 (u ''Server error: '' @ [39] @ u ''session'' @ [39]),
              requests_posted = [], db = Returns bot_db\<rparr> \<and>
   chat sample_lib hello_net (chat_req\<lparr>req_text := None\<rparr>) 8 9 bot_db =
     Returns \<lparr>response = Plain 500 (u ''Server error: '' @ [39] @ u ''text'' @ [39]),
              requests_posted = [], db = Returns bot_db\<rparr>"
proof -
  have a: "req_session (chat_req\<lparr>req_action := Some (u ''delete'')\<rparr>) = Some (u ''s1'') \<and>
      req_action (chat_req\<lparr>req_action := Some (u ''delete'')\<rparr>) = Some (u ''delete'') \<and>
      u ''delete'' \<noteq> u ''chat'' \<and> u ''delete'' \<noteq> u ''continue''"
    by (simp add: chat_req_def u_def)
  have b: "req_session (chat_req\<lparr>req_session := None\<rparr>) = None" by simp
  have c: "req_session (chat_req\<lparr>req_text := None\<rparr>) = Some (u ''s1'') \<and>
      req_action (chat_req\<lparr>req_text := None\<rparr>) = Some (u ''chat'') \<and>
      req_text (chat_req\<lparr>req_text := None\<rparr>) = None"
    by (simp add: chat_req_def)
  have 1: "chat sample_lib hello_net (chat_req\<lparr>req_action := Some (u ''delete'')\<rparr>) 8 9 bot_db =
     Returns \<lparr>response = Plain 400 (u ''Invalid action.''), requests_posted = [],
              db = Returns bot_db\<rparr>"
    using chat_rejects_bad_requests
      [of "chat_req\<lparr>req_action := Some (u ''delete'')\<rparr>" "u ''s1''" "u ''delete''"
          sample_lib hello_net 8 9 bot_db] a
    by blast
  have 2: "chat sample_lib hello_net (chat_req\<lparr>req_session := None\<rparr>) 8 9 bot_db =
     Returns \<lparr>response = Plain 500 (u ''Server error: '' @ [39] @ u ''session'' @ [39]),
              requests_posted = [], db = Returns bot_db\<rparr>"
    using chat_rejects_bad_requests
      [of "chat_req\<lparr>req_session := None\<rparr>" "u ''s1''" "u ''delete''"
          sample_lib hello_net 8 9 bot_db] b
    by blast
  have 3: "chat sample_lib hello_net (chat_req\<lparr>req_text := None\<rparr>) 8 9 bot_db =
     Returns \<lparr>response = Plain 500 (u ''Server error: '' @ [39] @ u ''text'' @ [39]),
              requests_posted = [], db = Returns bot_db\<rparr>"
    using chat_rejects_bad_requests
      [of "chat_req\<lparr>req_text := None\<rparr>" "u ''s1''" "u ''delete''"
          sample_lib hello_net 8 9 bot_db] c
    by blast
  show ?thesis using a b c 1 2 3 by blast
qed

text \<open>
  C2 as stated fails: a request with \<open>action=chat\<close> and no text is not answered with
  status 400.
\<close>

theorem chat_missing_text_not_400:
  "\<not> (\<exists>r b. chat sample_lib hello_net (chat_req\<lparr>req_text := None\<rparr>) 8 9 bot_db = Returns r \<and>
        response r = Plain 400 b)"
  by (simp add: chat_def Let_def chat_req_def server_error_def)

text \<open>
  C10. A request without a model is processed as one with the model
  \<open>claude-sonnet-3.7\<close>, the supported one; a request without an action is processed
  as one with the action \<open>chat\<close>, and is never answered with status 400.
\<close>

theorem chat_defaults:
  "chat lib net (data\<lparr>req_model := None\<rparr>) t1 t2 st =
     chat lib net (data\<lparr>req_model := Some supported_model\<rparr>) t1 t2 st \<and>
   supported_model = u ''claude-sonnet-3.7'' \<and>
   chat lib net (data\<lparr>req_action := None\<rparr>) t1 t2 st =
     chat lib net (data\<lparr>req_action := Some (u ''chat'')\<rparr>) t1 t2 st \<and>
   \<not> (\<exists>r b. chat lib net (data\<lparr>req_action := None\<rparr>) t1 t2 st = Returns r \<and>
         response r = Plain 400 b)"
  by (auto simp: chat_def Let_def supported_model_def server_error_def respond_def
      split: option.splits sum.splits outcome.splits)

end
